theory Spec2Isabelle
  imports Complex_Main "HOL-Library.AList"
begin

section \<open>JavaScript values\<close>

text \<open>
  The values that cross the two modules. A JavaScript number is a finite value, one of the
  two infinities, or NaN; only its comparison with zero and its truthiness are used by the
  code. A function object is identified by a natural number.
\<close>

datatype jsnum = Finite real | PosInfinity | NegInfinity | NaN

type_synonym callback = nat

datatype jsval =
    JUndefined
  | JNull
  | JBool bool
  | JNum jsnum
  | JStr string
  | JFun callback

fun typeof :: "jsval \<Rightarrow> string" where
  "typeof JUndefined = ''undefined''"
| "typeof JNull = ''object''"
| "typeof (JBool b) = ''boolean''"
| "typeof (JNum x) = ''number''"
| "typeof (JStr s) = ''string''"
| "typeof (JFun f) = ''function''"

text \<open>\<open>x <= 0\<close> on numbers: every comparison with NaN is false.\<close>

fun le_zero :: "jsnum \<Rightarrow> bool" where
  "le_zero (Finite r) = (r \<le> 0)"
| "le_zero PosInfinity = False"
| "le_zero NegInfinity = True"
| "le_zero NaN = False"

text \<open>ToBoolean, as used by \<open>!canRepeat\<close>.\<close>

fun truthy :: "jsval \<Rightarrow> bool" where
  "truthy JUndefined = False"
| "truthy JNull = False"
| "truthy (JBool b) = b"
| "truthy (JNum x) = (x \<noteq> Finite 0 \<and> x \<noteq> NaN)"
| "truthy (JStr s) = (s \<noteq> [])"
| "truthy (JFun f) = True"

section \<open>The message protocol\<close>

text \<open>
  Requests are the \<open>action\<close> values the worker's \<open>switch\<close> distinguishes
  (\<open>OTHER\<close> is any action without a \<open>case\<close>); events are what the worker posts.
\<close>

datatype request =
    ADD_TASK string jsval jsval
  | CLEAR_TASK string
  | REMOVE_ALL
  | PING string
  | OTHER string

datatype event =
    PONG string
  | TIMER_TICK string int
  | TASK_CLEARED string
  | ALL_TASKS_CLEARED

section \<open>The shared worker (shared-timer-worker.js)\<close>

text \<open>
  \<open>tasks\<close> is the module's \<open>Map\<close> (insertion ordered, one entry per key) and \<open>ports\<close> its
  \<open>Set\<close>. The runtime's table of armed intervals is made explicit as \<open>timers\<close>: an entry
  holds what the arrow function passed to \<open>setInterval\<close> captured, and the delay.
  \<open>nextTimerId\<close> is the handle the next \<open>setInterval\<close> returns; \<open>posted\<close> records every
  \<open>port.postMessage\<close> in the order it was made.
\<close>

record task =
  timerId :: nat
  intervalTime :: jsval
  canRepeat :: jsval

record interval_timer =
  cl_taskName :: string
  cl_canRepeat :: jsval
  cl_delay :: jsval

record worker =
  tasks :: "(string \<times> task) list"
  ports :: "nat list"
  timers :: "(nat \<times> interval_timer) list"
  nextTimerId :: nat
  posted :: "(nat \<times> event) list"

definition init_worker :: worker where
  "init_worker = \<lparr>tasks = [], ports = [], timers = [], nextTimerId = 1, posted = []\<rparr>"

definition setInterval :: "interval_timer \<Rightarrow> worker \<Rightarrow> nat \<times> worker" where
  "setInterval c s =
     (nextTimerId s,
      s\<lparr>timers := timers s @ [(nextTimerId s, c)], nextTimerId := Suc (nextTimerId s)\<rparr>)"

definition clearInterval :: "nat \<Rightarrow> worker \<Rightarrow> worker" where
  "clearInterval i s = s\<lparr>timers := AList.delete i (timers s)\<rparr>"

text \<open>\<open>ports.forEach(port => port.postMessage(ev))\<close>\<close>

definition broadcast :: "event \<Rightarrow> worker \<Rightarrow> worker" where
  "broadcast ev s = s\<lparr>posted := posted s @ map (\<lambda>p. (p, ev)) (ports s)\<rparr>"

definition clearTask :: "string \<Rightarrow> worker \<Rightarrow> worker" where
  "clearTask taskName s =
     (case map_of (tasks s) taskName of
        Some t \<Rightarrow>
          broadcast (TASK_CLEARED taskName)
            ((clearInterval (timerId t) s)\<lparr>tasks := AList.delete taskName (tasks s)\<rparr>)
      | None \<Rightarrow> s)"

text \<open>
  The arrow function of \<open>addTask\<close>. \<open>Date.now()\<close> is read once per port inside the
  \<open>forEach\<close>: \<open>now k\<close> is the reading at the \<open>k\<close>-th port visited.
\<close>

definition timer_callback :: "interval_timer \<Rightarrow> (nat \<Rightarrow> int) \<Rightarrow> worker \<Rightarrow> worker" where
  "timer_callback c now s =
     (let s1 = s\<lparr>posted := posted s @
                  map (\<lambda>k. (ports s ! k, TIMER_TICK (cl_taskName c) (now k)))
                      [0 ..< length (ports s)]\<rparr>
      in if \<not> truthy (cl_canRepeat c) then clearTask (cl_taskName c) s1 else s1)"

definition addTask :: "string \<Rightarrow> jsval \<Rightarrow> jsval \<Rightarrow> worker \<Rightarrow> worker" where
  "addTask taskName iv rep s =
     (let s1 = (case map_of (tasks s) taskName of
                  Some t \<Rightarrow> clearInterval (timerId t) s
                | None \<Rightarrow> s);
          (tid, s2) = setInterval
                        \<lparr>cl_taskName = taskName, cl_canRepeat = rep, cl_delay = iv\<rparr> s1
      in s2\<lparr>tasks := AList.update taskName
                         \<lparr>timerId = tid, intervalTime = iv, canRepeat = rep\<rparr> (tasks s2)\<rparr>)"

definition removeAllTasks :: "worker \<Rightarrow> worker" where
  "removeAllTasks s =
     broadcast ALL_TASKS_CLEARED
       ((fold (\<lambda>(taskName, t). clearInterval (timerId t)) (tasks s) s)\<lparr>tasks := []\<rparr>)"

definition onmessage :: "nat \<Rightarrow> request \<Rightarrow> worker \<Rightarrow> worker" where
  "onmessage port req s =
     (case req of
        ADD_TASK taskName iv rep \<Rightarrow> addTask taskName iv rep s
      | CLEAR_TASK taskName \<Rightarrow> clearTask taskName s
      | REMOVE_ALL \<Rightarrow> removeAllTasks s
      | PING taskName \<Rightarrow> s\<lparr>posted := posted s @ [(port, PONG taskName)]\<rparr>
      | OTHER a \<Rightarrow> s)"

text \<open>\<open>ports.add(port)\<close>: a \<open>Set\<close> keeps one copy of a member.\<close>

definition onconnect :: "nat \<Rightarrow> worker \<Rightarrow> worker" where
  "onconnect port s =
     s\<lparr>ports := (if port \<in> set (ports s) then ports s else ports s @ [port])\<rparr>"

text \<open>
  What can happen to the worker between two runs of its event loop: a consumer connects, a
  message arrives on a port whose handler \<open>onconnect\<close> installed, an armed interval fires
  (a cleared one never does), or a port reports an error. The worker registers no
  listener for the last kind, so nothing runs.
\<close>

datatype wevent =
    Connect nat
  | Message nat request
  | Fire nat "nat \<Rightarrow> int"
  | PortError nat

fun step :: "worker \<Rightarrow> wevent \<Rightarrow> worker" where
  "step s (Connect p) = onconnect p s"
| "step s (Message p req) = (if p \<in> set (ports s) then onmessage p req s else s)"
| "step s (Fire i now) =
     (case map_of (timers s) i of Some c \<Rightarrow> timer_callback c now s | None \<Rightarrow> s)"
| "step s (PortError p) = s"

definition run :: "wevent list \<Rightarrow> worker" where
  "run es = foldl step init_worker es"

text \<open>The handles of the armed intervals whose tick carries a given name.\<close>

definition live_handles :: "worker \<Rightarrow> string \<Rightarrow> nat list" where
  "live_handles s taskName =
     map fst (filter (\<lambda>(i, c). cl_taskName c = taskName) (timers s))"

fun is_tick :: "string \<Rightarrow> event \<Rightarrow> bool" where
  "is_tick taskName (TIMER_TICK m ts) = (m = taskName)"
| "is_tick taskName ev = False"

definition ticks_for :: "string \<Rightarrow> (nat \<times> event) list \<Rightarrow> (nat \<times> event) list" where
  "ticks_for taskName ps = filter (\<lambda>(p, ev). is_tick taskName ev) ps"

fun is_add :: "string \<Rightarrow> wevent \<Rightarrow> bool" where
  "is_add taskName (Message p (ADD_TASK m iv rep)) = (m = taskName)"
| "is_add taskName e = False"

text \<open>What one step of the worker posted.\<close>

definition newly_posted :: "worker \<Rightarrow> worker \<Rightarrow> (nat \<times> event) list" where
  "newly_posted s s' = drop (length (posted s)) (posted s')"

text \<open>The events posted to one port, in order.\<close>

definition received :: "nat \<Rightarrow> (nat \<times> event) list \<Rightarrow> event list" where
  "received p ps = map snd (filter (\<lambda>(q, ev). q = p) ps)"

text \<open>
  The registry and the table of armed intervals mirror each other: keys are unique, every
  armed interval is the one recorded under its name in the registry, and every registry
  entry's handle is armed with what \<open>addTask\<close> captured for it.
\<close>

definition consistent :: "worker \<Rightarrow> bool" where
  "consistent s \<longleftrightarrow>
     distinct (map fst (timers s)) \<and> distinct (map fst (tasks s)) \<and> distinct (ports s) \<and>
     (\<forall>i c. (i, c) \<in> set (timers s) \<longrightarrow>
        i < nextTimerId s \<and>
        (\<exists>t. (cl_taskName c, t) \<in> set (tasks s) \<and> timerId t = i)) \<and>
     (\<forall>n t. (n, t) \<in> set (tasks s) \<longrightarrow>
        (timerId t,
         \<lparr>cl_taskName = n, cl_canRepeat = canRepeat t, cl_delay = intervalTime t\<rparr>)
          \<in> set (timers s))"

section \<open>The consumer proxy (timer-manager.esm.js)\<close>

text \<open>
  \<open>callbacks\<close> is the instance's \<open>Map\<close>; \<open>sent\<close> records every
  \<open>this.worker.port.postMessage\<close>; \<open>invoked\<close> records every call of a stored callback
  with its two arguments. Every \<open>throw\<close> is \<open>new Error(message)\<close>.
\<close>

datatype error = Error string

record proxy =
  callbacks :: "(string \<times> callback) list"
  isConnected :: bool
  sent :: "request list"
  invoked :: "(callback \<times> string \<times> int) list"

definition NotConnectedError :: error where
  "NotConnectedError = Error ''TimerManager is not connected to SharedWorker''"

definition CallbackError :: error where
  "CallbackError = Error ''Callback must be a function''"

definition IntervalError :: error where
  "IntervalError = Error ''Interval time must be a positive number''"

text \<open>
  \<open>typeof intervalTime !== 'number' || intervalTime <= 0\<close>: the comparison is reached only
  for a number.
\<close>

definition bad_interval :: "jsval \<Rightarrow> bool" where
  "bad_interval iv =
     (typeof iv \<noteq> ''number'' \<or> (case iv of JNum x \<Rightarrow> le_zero x | _ \<Rightarrow> False))"

text \<open>
  The result pairs what was thrown (if anything) with the instance after the call, so a
  mutation made before a \<open>throw\<close> would show. The fourth argument is \<open>None\<close> when
  \<open>canRepeat\<close> is omitted, and then takes its default \<open>true\<close>. Past the \<open>typeof\<close> check
  the callback is a function object, so the last branch of the \<open>case\<close> is never taken.
\<close>

definition addTimerTask ::
  "string \<Rightarrow> jsval \<Rightarrow> jsval \<Rightarrow> bool option \<Rightarrow> proxy \<Rightarrow> error option \<times> proxy" where
  "addTimerTask taskName iv cb rep p =
     (if \<not> isConnected p then (Some NotConnectedError, p)
      else if typeof cb \<noteq> ''function'' then (Some CallbackError, p)
      else if bad_interval iv then (Some IntervalError, p)
      else (case cb of
              JFun f \<Rightarrow>
                (None,
                 p\<lparr>callbacks := AList.update taskName f (callbacks p),
                   sent := sent p @
                     [ADD_TASK taskName iv
                        (JBool (case rep of None \<Rightarrow> True | Some b \<Rightarrow> b))]\<rparr>)
            | _ \<Rightarrow> (Some CallbackError, p)))"

definition clearTimerTask :: "string \<Rightarrow> proxy \<Rightarrow> error option \<times> proxy" where
  "clearTimerTask taskName p =
     (if \<not> isConnected p then (Some NotConnectedError, p)
      else (None,
            p\<lparr>callbacks := AList.delete taskName (callbacks p),
              sent := sent p @ [CLEAR_TASK taskName]\<rparr>))"

definition removeAllTimerTasks :: "proxy \<Rightarrow> error option \<times> proxy" where
  "removeAllTimerTasks p =
     (if \<not> isConnected p then (Some NotConnectedError, p)
      else (None, p\<lparr>callbacks := [], sent := sent p @ [REMOVE_ALL]\<rparr>))"

definition handleWorkerMessage :: "event \<Rightarrow> proxy \<Rightarrow> proxy" where
  "handleWorkerMessage data p =
     (case data of
        TIMER_TICK taskName timestamp \<Rightarrow>
          (case map_of (callbacks p) taskName of
             Some f \<Rightarrow> p\<lparr>invoked := invoked p @ [(f, taskName, timestamp)]\<rparr>
           | None \<Rightarrow> p)
      | TASK_CLEARED taskName \<Rightarrow> p
      | ALL_TASKS_CLEARED \<Rightarrow> p\<lparr>callbacks := []\<rparr>
      | PONG taskName \<Rightarrow> p)"

definition getActiveTasks :: "proxy \<Rightarrow> string list" where
  "getActiveTasks p = map fst (callbacks p)"

definition hasTask :: "string \<Rightarrow> proxy \<Rightarrow> bool" where
  "hasTask taskName p = (map_of (callbacks p) taskName \<noteq> None)"

text \<open>A freshly constructed instance whose \<open>init\<close> did not throw.\<close>

definition new_proxy :: proxy where
  "new_proxy = \<lparr>callbacks = [], isConnected = True, sent = [], invoked = []\<rparr>"

text \<open>
  The requests a call added to the channel, and their arrival at the worker on the
  caller's port.
\<close>

definition new_requests :: "proxy \<Rightarrow> proxy \<Rightarrow> request list" where
  "new_requests p p' = drop (length (sent p)) (sent p')"

definition deliver :: "nat \<Rightarrow> request list \<Rightarrow> worker \<Rightarrow> worker" where
  "deliver port reqs w = foldl (\<lambda>w' req. step w' (Message port req)) w reqs"

section \<open>Conditions in the specification's words\<close>

text \<open>
  These three predicates follow the specification, not the code; they are what the code is
  compared with. A strictly positive finite number; a positive number; and the arguments
  for which the specification announces an \<open>InvalidArgumentError\<close>: a callback that is
  not callable, an interval that is not a positive number, or an empty task name.
\<close>

definition spec_strictly_positive_finite :: "jsval \<Rightarrow> bool" where
  "spec_strictly_positive_finite iv = (case iv of JNum (Finite r) \<Rightarrow> 0 < r | _ \<Rightarrow> False)"

definition spec_positive_number :: "jsval \<Rightarrow> bool" where
  "spec_positive_number iv =
     (case iv of JNum (Finite r) \<Rightarrow> 0 < r | JNum PosInfinity \<Rightarrow> True | _ \<Rightarrow> False)"

definition spec_invalid_argument :: "string \<Rightarrow> jsval \<Rightarrow> jsval \<Rightarrow> bool" where
  "spec_invalid_argument taskName iv cb =
     (typeof cb \<noteq> ''function'' \<or> \<not> spec_positive_number iv \<or> taskName = [])"

section \<open>A concrete run\<close>

text \<open>
  Two consumers connect and the first registers the one-shot task \<open>t\<close>; later the task
  fires, the second consumer clears it and the first registers another task.
\<close>

definition ex_events :: "wevent list" where
  "ex_events =
     [Connect 10, Connect 20, Message 10 (ADD_TASK ''t'' (JNum (Finite 100)) (JBool False))]"

definition ex_task :: task where
  "ex_task = \<lparr>timerId = 1, intervalTime = JNum (Finite 100), canRepeat = JBool False\<rparr>"

definition ex_now :: "nat \<Rightarrow> int" where
  "ex_now k = 1000"

definition ex_later :: "wevent list" where
  "ex_later =
     [Fire 1 ex_now, Message 20 (CLEAR_TASK ''t''),
      Message 10 (ADD_TASK ''u'' (JNum (Finite 5)) (JBool True))]"

text \<open>
  Two consumers connect, the second registers the repeating task \<open>r\<close>, and then the
  first consumer's port reports an error.
\<close>

definition ex_repeating :: "wevent list" where
  "ex_repeating =
     [Connect 10, Connect 20, Message 20 (ADD_TASK ''r'' (JNum (Finite 5)) (JBool True)),
      PortError 10]"

definition ex_timer :: interval_timer where
  "ex_timer = \<lparr>cl_taskName = ''r'', cl_canRepeat = JBool True, cl_delay = JNum (Finite 5)\<rparr>"

section \<open>The registry and the armed intervals stay consistent\<close>

lemma consistent_init: "consistent init_worker"
  by (simp add: consistent_def init_worker_def)

lemma consistent_onconnect: "consistent s \<Longrightarrow> consistent (onconnect p s)"
  by (simp add: consistent_def onconnect_def)

lemma consistent_posted: "consistent (s\<lparr>posted := ps\<rparr>) = consistent s"
  by (simp add: consistent_def)

lemma consistent_broadcast: "consistent (broadcast ev s) = consistent s"
  by (simp add: consistent_def broadcast_def)

lemma timer_of_task:
  assumes "consistent s" "(n, t) \<in> set (tasks s)" "(i, c) \<in> set (timers s)"
  shows "cl_taskName c = n \<longleftrightarrow> i = timerId t"
proof
  assume "cl_taskName c = n"
  with assms obtain t' where "(n, t') \<in> set (tasks s)" "timerId t' = i"
    unfolding consistent_def by blast
  moreover have "distinct (map fst (tasks s))" using assms by (simp add: consistent_def)
  ultimately show "i = timerId t" using assms(2) eq_key_imp_eq_value by fastforce
next
  assume "i = timerId t"
  moreover obtain c' where "(timerId t, c') \<in> set (timers s)" "cl_taskName c' = n"
    using assms unfolding consistent_def by force
  moreover have "distinct (map fst (timers s))" using assms by (simp add: consistent_def)
  ultimately show "cl_taskName c = n" using assms(3) eq_key_imp_eq_value by fastforce
qed

lemma set_delete: "set (AList.delete k al) = {x \<in> set al. fst x \<noteq> k}"
  by (auto simp: AList.delete_eq)

lemma consistent_clearTask: 
  assumes "consistent s" shows "consistent (clearTask n s)"
proof (cases "map_of (tasks s) n")
  case None
  then show ?thesis using assms by (simp add: clearTask_def)
next
  case (Some t)
  have eq: "clearTask n s = broadcast (TASK_CLEARED n)
            ((clearInterval (timerId t) s)\<lparr>tasks := AList.delete n (tasks s)\<rparr>)"
    using Some by (simp add: clearTask_def)
  have nt: "(n, t) \<in> set (tasks s)" using Some by (rule map_of_SomeD)
  have d: "distinct (map fst (timers s))" "distinct (map fst (tasks s))" "distinct (ports s)"
    using assms by (simp_all add: consistent_def)
  have T: "\<And>i c. (i, c) \<in> set (timers s) \<Longrightarrow>
        i < nextTimerId s \<and> (\<exists>t. (cl_taskName c, t) \<in> set (tasks s) \<and> timerId t = i)"
    using assms unfolding consistent_def by blast
  have R: "\<And>m u. (m, u) \<in> set (tasks s) \<Longrightarrow>
        (timerId u, \<lparr>cl_taskName = m, cl_canRepeat = canRepeat u, cl_delay = intervalTime u\<rparr>)
          \<in> set (timers s)"
    using assms unfolding consistent_def by blast
  let ?s' = "(clearInterval (timerId t) s)\<lparr>tasks := AList.delete n (tasks s)\<rparr>"
  have f: "timers ?s' = AList.delete (timerId t) (timers s)"
    "tasks ?s' = AList.delete n (tasks s)" "ports ?s' = ports s"
    "nextTimerId ?s' = nextTimerId s"
    by (simp_all add: clearInterval_def)
  have "consistent ?s'"
    unfolding consistent_def f
  proof (intro conjI allI impI)
    fix i c
    assume "(i, c) \<in> set (AList.delete (timerId t) (timers s))"
    then have ic: "(i, c) \<in> set (timers s)" "i \<noteq> timerId t"
      by (simp_all add: set_delete)
    from T[OF ic(1)] obtain u where u: "(cl_taskName c, u) \<in> set (tasks s)" "timerId u = i" "i < nextTimerId s"
      by blast
    have "cl_taskName c \<noteq> n" using timer_of_task[OF assms nt ic(1)] ic(2) by simp
    from u show "i < nextTimerId s" by simp
    from u \<open>cl_taskName c \<noteq> n\<close>
    show "\<exists>ta. (cl_taskName c, ta) \<in> set (AList.delete n (tasks s)) \<and> timerId ta = i"
      by (auto simp: set_delete)
  next
    fix m u
    assume "(m, u) \<in> set (AList.delete n (tasks s))"
    then have mu: "(m, u) \<in> set (tasks s)" "m \<noteq> n"
      by (simp_all add: set_delete)
    note c = R[OF mu(1)]
    have "timerId u \<noteq> timerId t" using timer_of_task[OF assms nt c] mu(2) by simp
    with c show "(timerId u, \<lparr>cl_taskName = m, cl_canRepeat = canRepeat u, cl_delay = intervalTime u\<rparr>) \<in> set (AList.delete (timerId t) (timers s))"
      by (simp add: set_delete)
  qed (use d in \<open>simp_all add: distinct_delete\<close>)
  then show ?thesis unfolding eq consistent_broadcast .
qed

lemma consistent_tick: "consistent s \<Longrightarrow> consistent (timer_callback c now s)"
  by (simp add: timer_callback_def Let_def consistent_clearTask consistent_posted)

lemma set_update_distinct:
  "distinct (map fst al) \<Longrightarrow>
   set (AList.update k v al) = insert (k, v) {x \<in> set al. fst x \<noteq> k}"
  by (induct al) (auto simp: image_iff)

lemma consistent_addTask:
  assumes "consistent s" shows "consistent (addTask n iv rep s)"
proof -
  have d: "distinct (map fst (timers s))" "distinct (map fst (tasks s))" "distinct (ports s)"
    using assms by (simp_all add: consistent_def)
  have T: "\<And>i c. (i, c) \<in> set (timers s) \<Longrightarrow>
        i < nextTimerId s \<and> (\<exists>t. (cl_taskName c, t) \<in> set (tasks s) \<and> timerId t = i)"
    using assms unfolding consistent_def by blast
  have R: "\<And>m u. (m, u) \<in> set (tasks s) \<Longrightarrow>
        (timerId u, \<lparr>cl_taskName = m, cl_canRepeat = canRepeat u, cl_delay = intervalTime u\<rparr>)
          \<in> set (timers s)"
    using assms unfolding consistent_def by blast
  define old where "old = (case map_of (tasks s) n of Some t \<Rightarrow> AList.delete (timerId t) (timers s) | None \<Rightarrow> timers s)"
  define cl where "cl = \<lparr>cl_taskName = n, cl_canRepeat = rep, cl_delay = iv\<rparr>"
  define tk where "tk = \<lparr>timerId = nextTimerId s, intervalTime = iv, canRepeat = rep\<rparr>"
  have f: "timers (addTask n iv rep s) = old @ [(nextTimerId s, cl)]"
    "tasks (addTask n iv rep s) = AList.update n tk (tasks s)" "ports (addTask n iv rep s) = ports s"
    "nextTimerId (addTask n iv rep s) = Suc (nextTimerId s)"
    by (simp_all add: addTask_def setInterval_def clearInterval_def old_def cl_def tk_def Let_def split: option.splits)
  have old_sub: "set old \<subseteq> set (timers s)"
    by (auto simp: old_def set_delete split: option.splits)
  have old_d: "distinct (map fst old)"
    using d by (auto simp: old_def distinct_delete split: option.splits)
  have old_n: "cl_taskName c \<noteq> n" if "(i, c) \<in> set old" for i c
  proof (cases "map_of (tasks s) n")
    case None
    then have "n \<notin> fst ` set (tasks s)" by (simp add: map_of_eq_None_iff)
    moreover have "(i, c) \<in> set (timers s)" using that old_sub by blast
    ultimately show ?thesis using T by force
  next
    case (Some t)
    then have nt: "(n, t) \<in> set (tasks s)" by (rule map_of_SomeD)
    have "(i, c) \<in> set (timers s)" "i \<noteq> timerId t"
      using that Some by (simp_all add: old_def set_delete)
    then show ?thesis using timer_of_task[OF assms nt] by simp
  qed
  have old_R: "(timerId u, \<lparr>cl_taskName = m, cl_canRepeat = canRepeat u, cl_delay = intervalTime u\<rparr>) \<in> set old"
    if "(m, u) \<in> set (tasks s)" "m \<noteq> n" for m u
  proof (cases "map_of (tasks s) n")
    case None
    then show ?thesis using R[OF that(1)] by (simp add: old_def)
  next
    case (Some t)
    then have nt: "(n, t) \<in> set (tasks s)" by (rule map_of_SomeD)
    note c = R[OF that(1)]
    have "timerId u \<noteq> timerId t" using timer_of_task[OF assms nt c] that(2) by simp
    with c show ?thesis using Some by (simp add: old_def set_delete)
  qed
  have fresh: "nextTimerId s \<notin> fst ` set old"
  proof
    assume "nextTimerId s \<in> fst ` set old"
    then obtain c where "(nextTimerId s, c) \<in> set (timers s)" using old_sub by auto
    from T[OF this] show False by simp
  qed
  note su = set_update_distinct[OF d(2)]
  show ?thesis
    unfolding consistent_def f
  proof (intro conjI allI impI)
    show "distinct (map fst (old @ [(nextTimerId s, cl)]))"
      using old_d fresh by simp
    show "distinct (map fst (AList.update n tk (tasks s)))"
      using d by (simp add: distinct_update)
    show "distinct (ports s)" by (rule d)
  next
    fix i c
    assume a: "(i, c) \<in> set (old @ [(nextTimerId s, cl)])"
    show "i < Suc (nextTimerId s)"
      using a old_sub T by (auto simp: less_Suc_eq)
    show "\<exists>t. (cl_taskName c, t) \<in> set (AList.update n tk (tasks s)) \<and> timerId t = i"
    proof (cases "(i, c) \<in> set old")
      case True
      then have "cl_taskName c \<noteq> n" by (rule old_n)
      moreover from True old_sub T obtain t where "(cl_taskName c, t) \<in> set (tasks s)" "timerId t = i"
        by blast
      ultimately show ?thesis by (auto simp: su)
    next
      case False
      with a have "i = nextTimerId s" "c = cl" by auto
      then show ?thesis by (auto simp: su cl_def tk_def)
    qed
  next
    fix m u
    assume a: "(m, u) \<in> set (AList.update n tk (tasks s))"
    show "(timerId u, \<lparr>cl_taskName = m, cl_canRepeat = canRepeat u, cl_delay = intervalTime u\<rparr>) \<in> set (old @ [(nextTimerId s, cl)])"
    proof (cases "m = n")
      case True
      with a have "u = tk" by (auto simp: su)
      then show ?thesis using True by (auto simp: tk_def cl_def)
    next
      case False
      with a have "(m, u) \<in> set (tasks s)" by (auto simp: su)
      from old_R[OF this False] show ?thesis by simp
    qed
  qed
qed

lemma fold_clearInterval:
  "fold (\<lambda>(n, t). clearInterval (timerId t)) ts s =
     s\<lparr>timers := filter (\<lambda>(i, c). i \<notin> timerId ` snd ` set ts) (timers s)\<rparr>"
proof (induction ts arbitrary: s)
  case Nil
  then show ?case by simp
next
  case (Cons a ts)
  obtain n t where a: "a = (n, t)" by (cases a)
  have "fold (\<lambda>(n, t). clearInterval (timerId t)) (a # ts) s =
        fold (\<lambda>(n, t). clearInterval (timerId t)) ts (clearInterval (timerId t) s)"
    by (simp add: a)
  also have "\<dots> = (clearInterval (timerId t) s)\<lparr>timers :=
        filter (\<lambda>(i, c). i \<notin> timerId ` snd ` set ts) (timers (clearInterval (timerId t) s))\<rparr>"
    by (rule Cons.IH)
  also have "\<dots> = s\<lparr>timers := filter (\<lambda>(i, c). i \<notin> timerId ` snd ` set (a # ts)) (timers s)\<rparr>"
    by (simp add: a clearInterval_def AList.delete_eq split_def conj_commute neq_commute)
  finally show ?case .
qed

lemma timers_removeAllTasks:
  assumes "consistent s" shows "timers (removeAllTasks s) = []"
proof -
  have "\<And>i c. (i, c) \<in> set (timers s) \<Longrightarrow> i \<in> timerId ` snd ` set (tasks s)"
    using assms unfolding consistent_def by force
  then show ?thesis
    by (auto simp: removeAllTasks_def broadcast_def fold_clearInterval filter_empty_conv)
qed

lemma consistent_removeAllTasks:
  assumes "consistent s" shows "consistent (removeAllTasks s)"
proof -
  have "tasks (removeAllTasks s) = []" "ports (removeAllTasks s) = ports s"
    by (simp_all add: removeAllTasks_def broadcast_def fold_clearInterval)
  then show ?thesis
    using assms timers_removeAllTasks[OF assms] by (simp add: consistent_def)
qed

lemma consistent_onmessage: "consistent s \<Longrightarrow> consistent (onmessage p req s)"
  by (cases req)
     (simp_all add: onmessage_def consistent_addTask consistent_clearTask
        consistent_removeAllTasks consistent_posted)

lemma consistent_step: "consistent s \<Longrightarrow> consistent (step s e)"
  by (cases e)
     (simp_all add: consistent_onconnect consistent_onmessage consistent_tick
        split: option.splits)

lemma consistent_foldl: "consistent s \<Longrightarrow> consistent (foldl step s es)"
  by (induction es arbitrary: s) (simp_all add: consistent_step)

lemma consistent_run: "consistent (run es)"
  by (simp add: run_def consistent_foldl consistent_init)

section \<open>Local queries of the proxy\<close>

text \<open>
  C10. \<open>hasTask(name)\<close> is true exactly when \<open>name\<close> is an element of the array returned
  by \<open>getActiveTasks()\<close>, in every proxy state.
\<close>

theorem hasTask_iff_getActiveTasks:
  "hasTask taskName p \<longleftrightarrow> taskName \<in> set (getActiveTasks p)"
  by (simp add: hasTask_def getActiveTasks_def map_of_eq_None_iff)

section \<open>One task and one armed interval per name\<close>

lemma addTask_tasks:
  "tasks (addTask n iv rep s) =
     AList.update n \<lparr>timerId = nextTimerId s, intervalTime = iv, canRepeat = rep\<rparr> (tasks s)"
  by (simp add: addTask_def setInterval_def clearInterval_def Let_def split: option.splits)

lemma addTask_timers:
  "timers (addTask n iv rep s) =
     (case map_of (tasks s) n of
        Some t \<Rightarrow> AList.delete (timerId t) (timers s)
      | None \<Rightarrow> timers s) @
     [(nextTimerId s, \<lparr>cl_taskName = n, cl_canRepeat = rep, cl_delay = iv\<rparr>)]"
  by (simp add: addTask_def setInterval_def clearInterval_def Let_def split: option.splits)

lemma addTask_other:
  "ports (addTask n iv rep s) = ports s"
  "posted (addTask n iv rep s) = posted s"
  "nextTimerId (addTask n iv rep s) = Suc (nextTimerId s)"
  by (simp_all add: addTask_def setInterval_def clearInterval_def Let_def split: option.splits)

lemma filter_key_distinct:
  "distinct (map fst xs) \<Longrightarrow> length (filter (\<lambda>(k, v). k = a) xs) \<le> 1"
  by (induction xs) (auto simp: image_iff filter_empty_conv)

lemma filter_key_present:
  "distinct (map fst xs) \<Longrightarrow> (a, b) \<in> set xs \<Longrightarrow>
   filter (\<lambda>(k, v). k = a) xs = [(a, b)]"
  by (induction xs) (auto simp: image_iff filter_empty_conv)

lemma live_handles_registry:
  assumes "consistent s"
  shows "live_handles s n =
           (case map_of (tasks s) n of Some t \<Rightarrow> [timerId t] | None \<Rightarrow> [])"
proof (cases "map_of (tasks s) n")
  case None
  then have "n \<notin> fst ` set (tasks s)" by (simp add: map_of_eq_None_iff)
  moreover have "\<And>i c. (i, c) \<in> set (timers s) \<Longrightarrow> cl_taskName c \<in> fst ` set (tasks s)"
    using assms unfolding consistent_def by force
  ultimately have "filter (\<lambda>(i, c). cl_taskName c = n) (timers s) = []"
    by (auto simp: filter_empty_conv)
  then show ?thesis using None by (simp add: live_handles_def)
next
  case (Some t)
  then have nt: "(n, t) \<in> set (tasks s)" by (rule map_of_SomeD)
  have d: "distinct (map fst (timers s))" using assms by (simp add: consistent_def)
  have armed: "(timerId t, \<lparr>cl_taskName = n, cl_canRepeat = canRepeat t, cl_delay = intervalTime t\<rparr>)
          \<in> set (timers s)"
    using assms nt unfolding consistent_def by blast
  have "filter (\<lambda>(i, c). cl_taskName c = n) (timers s) =
        filter (\<lambda>(i, c). i = timerId t) (timers s)"
  proof (rule filter_cong)
    fix x assume x: "x \<in> set (timers s)"
    obtain i c where ic: "x = (i, c)" by (cases x)
    show "(case x of (i, c) \<Rightarrow> cl_taskName c = n) = (case x of (i, c) \<Rightarrow> i = timerId t)"
      using timer_of_task[OF assms nt, of i c] x by (simp add: ic)
  qed simp
  also have "\<dots> = [(timerId t, \<lparr>cl_taskName = n, cl_canRepeat = canRepeat t, cl_delay = intervalTime t\<rparr>)]"
    by (rule filter_key_present[OF d armed])
  finally show ?thesis using Some by (simp add: live_handles_def)
qed

text \<open>
  C1. After any sequence of worker events the registry holds at most one entry per name
  and at most one armed interval ticks for that name. Processing \<open>ADD_TASK\<close> for a
  name already in the registry cancels the handle recorded for it, and the name is then
  served by the new handle alone; after two \<open>ADD_TASK\<close> requests in a row for one name
  (from any two ports) exactly one interval is armed for it, the second one, and the
  registry's single entry for the name records it.
\<close>

theorem one_timer_per_name:
  "length (filter (\<lambda>(m, t). m = taskName) (tasks (run es))) \<le> 1 \<and>
   length (live_handles (run es) taskName) \<le> 1 \<and>
   (\<forall>t. map_of (tasks (run es)) taskName = Some t \<longrightarrow>
      timerId t \<notin> fst ` set (timers (onmessage p (ADD_TASK taskName iv rep) (run es)))) \<and>
   live_handles (onmessage p (ADD_TASK taskName iv rep) (run es)) taskName
     = [nextTimerId (run es)] \<and>
   live_handles
     (onmessage q (ADD_TASK taskName iv' rep') (onmessage p (ADD_TASK taskName iv rep) (run es)))
     taskName = [Suc (nextTimerId (run es))] \<and>
   filter (\<lambda>(m, t). m = taskName)
     (tasks (onmessage q (ADD_TASK taskName iv' rep')
        (onmessage p (ADD_TASK taskName iv rep) (run es))))
     = [(taskName, \<lparr>timerId = Suc (nextTimerId (run es)), intervalTime = iv', canRepeat = rep'\<rparr>)]"
proof -
  let ?s = "run es"
  let ?s1 = "addTask taskName iv rep ?s"
  let ?s2 = "addTask taskName iv' rep' ?s1"
  have c: "consistent ?s" by (rule consistent_run)
  have c1: "consistent ?s1" using c by (rule consistent_addTask)
  have c2: "consistent ?s2" using c1 by (rule consistent_addTask)
  have A: "length (filter (\<lambda>(m, t). m = taskName) (tasks ?s)) \<le> 1"
  proof -
    have "distinct (map fst (tasks ?s))" using c by (simp add: consistent_def)
    then show ?thesis by (rule filter_key_distinct)
  qed
  have B: "length (live_handles ?s taskName) \<le> 1"
    by (simp add: live_handles_registry[OF c] split: option.splits)
  have C: "timerId t \<notin> fst ` set (timers ?s1)" if "map_of (tasks ?s) taskName = Some t" for t
  proof -
    have "(taskName, t) \<in> set (tasks ?s)" using that by (rule map_of_SomeD)
    then have "timerId t < nextTimerId ?s" using c unfolding consistent_def by blast
    then show ?thesis using that by (auto simp: addTask_timers set_delete)
  qed
  have D: "live_handles ?s1 taskName = [nextTimerId ?s]"
    by (simp add: live_handles_registry[OF c1] addTask_tasks update_conv')
  have E: "live_handles ?s2 taskName = [Suc (nextTimerId ?s)]"
    by (simp add: live_handles_registry[OF c2] addTask_tasks addTask_other update_conv')
  have "(taskName, \<lparr>timerId = Suc (nextTimerId ?s), intervalTime = iv', canRepeat = rep'\<rparr>)
          \<in> set (tasks ?s2)"
    by (rule map_of_SomeD) (simp add: addTask_tasks addTask_other update_conv')
  moreover have "distinct (map fst (tasks ?s2))" using c2 by (simp add: consistent_def)
  ultimately have F: "filter (\<lambda>(m, t). m = taskName) (tasks ?s2)
     = [(taskName, \<lparr>timerId = Suc (nextTimerId ?s), intervalTime = iv', canRepeat = rep'\<rparr>)]"
    by (rule filter_key_present[rotated])
  show ?thesis
    using A B C D E F by (simp add: onmessage_def)
qed

text \<open>Unfolding the worker on concrete inputs.\<close>

lemmas worker_eval =
  run_def init_worker_def onconnect_def onmessage_def addTask_def clearTask_def
  removeAllTasks_def timer_callback_def setInterval_def clearInterval_def broadcast_def
  live_handles_def newly_posted_def received_def ticks_for_def Let_def

lemma run_example:
  "run ex_events =
     \<lparr>tasks = [(''t'', ex_task)],
      ports = [10, 20],
      timers = [(1, \<lparr>cl_taskName = ''t'', cl_canRepeat = JBool False,
                      cl_delay = JNum (Finite 100)\<rparr>)],
      nextTimerId = 2, posted = []\<rparr>"
  by (simp add: ex_events_def ex_task_def worker_eval)

theorem one_timer_per_name_witness:
  "map_of (tasks (run ex_events)) ''t'' = Some ex_task \<and>
   timerId ex_task \<notin> fst ` set (timers
      (onmessage 20 (ADD_TASK ''t'' (JNum (Finite 50)) (JBool True)) (run ex_events)))"
proof -
  have h: "map_of (tasks (run ex_events)) ''t'' = Some ex_task"
    by (simp add: run_example)
  have "\<forall>t. map_of (tasks (run ex_events)) ''t'' = Some t \<longrightarrow>
      timerId t \<notin> fst ` set (timers
        (onmessage 20 (ADD_TASK ''t'' (JNum (Finite 50)) (JBool True)) (run ex_events)))"
    using one_timer_per_name [of "''t''" ex_events 20 "JNum (Finite 50)" "JBool True"]
    by blast
  with h show ?thesis by blast
qed

section \<open>A one-shot task fires once\<close>

lemma clearTask_tasks: "tasks (clearTask n s) = AList.delete n (tasks s)"
proof (cases "map_of (tasks s) n")
  case None
  then have "n \<notin> fst ` set (tasks s)" by (simp add: map_of_eq_None_iff)
  then show ?thesis using None by (simp add: clearTask_def)
next
  case (Some t)
  then show ?thesis by (simp add: clearTask_def broadcast_def clearInterval_def)
qed

lemma clearTask_timers:
  "timers (clearTask n s) =
     (case map_of (tasks s) n of
        Some t \<Rightarrow> AList.delete (timerId t) (timers s)
      | None \<Rightarrow> timers s)"
  by (simp add: clearTask_def broadcast_def clearInterval_def split: option.splits)

lemma clearTask_posted:
  "posted (clearTask n s) =
     posted s @ (case map_of (tasks s) n of
                   Some t \<Rightarrow> map (\<lambda>p. (p, TASK_CLEARED n)) (ports s)
                 | None \<Rightarrow> [])"
  by (simp add: clearTask_def broadcast_def clearInterval_def split: option.splits)

lemma clearTask_other:
  "ports (clearTask n s) = ports s" "nextTimerId (clearTask n s) = nextTimerId s"
  by (simp_all add: clearTask_def broadcast_def clearInterval_def split: option.splits)

lemma received_append: "received p (xs @ ys) = received p xs @ received p ys"
  by (simp add: received_def)

lemma received_broadcast:
  "distinct ps \<Longrightarrow> p \<in> set ps \<Longrightarrow> received p (map (\<lambda>q. (q, ev)) ps) = [ev]"
  by (induction ps) (auto simp: received_def filter_empty_conv)

lemma filter_eq_upt: "k < n \<Longrightarrow> filter (\<lambda>j. j = k) [0 ..< n] = [k]"
  by (induction n) (auto simp: less_Suc_eq filter_empty_conv)

lemma received_ticks:
  assumes "distinct ps" "k < length ps"
  shows "received (ps ! k) (map (\<lambda>j. (ps ! j, f j)) [0 ..< length ps]) = [f k]"
proof -
  have "filter (\<lambda>j. ps ! j = ps ! k) [0 ..< length ps] = filter (\<lambda>j. j = k) [0 ..< length ps]"
    by (rule filter_cong) (use assms in \<open>auto simp: nth_eq_iff_index_eq\<close>)
  then have "filter (\<lambda>j. ps ! j = ps ! k) [0 ..< length ps] = [k]"
    using assms(2) by (simp add: filter_eq_upt)
  then show ?thesis
    by (simp add: received_def filter_map comp_def)
qed

lemma armed_lookup:
  assumes "consistent s" "map_of (tasks s) n = Some t"
  shows "map_of (timers s) (timerId t) =
           Some \<lparr>cl_taskName = n, cl_canRepeat = canRepeat t, cl_delay = intervalTime t\<rparr>"
proof -
  have "(n, t) \<in> set (tasks s)" using assms(2) by (rule map_of_SomeD)
  then have "(timerId t, \<lparr>cl_taskName = n, cl_canRepeat = canRepeat t, cl_delay = intervalTime t\<rparr>)
      \<in> set (timers s)"
    using assms(1) unfolding consistent_def by blast
  moreover have "distinct (map fst (timers s))" using assms(1) by (simp add: consistent_def)
  ultimately show ?thesis by simp
qed

lemma ticks_for_append: "ticks_for n (xs @ ys) = ticks_for n xs @ ticks_for n ys"
  by (simp add: ticks_for_def)

lemma ticks_for_Nil: "ticks_for n [] = []"
  by (simp add: ticks_for_def)

lemma ticks_for_broadcast: "\<not> is_tick n ev \<Longrightarrow> ticks_for n (map (\<lambda>p. (p, ev)) ps) = []"
  by (simp add: ticks_for_def filter_empty_conv)

lemma ticks_for_other:
  "m \<noteq> n \<Longrightarrow> ticks_for n (map (\<lambda>k. (ps ! k, TIMER_TICK m (f k))) ks) = []"
  by (simp add: ticks_for_def filter_empty_conv)

lemma live_handles_Nil:
  "live_handles s n = [] \<longleftrightarrow> (\<forall>(i, c) \<in> set (timers s). cl_taskName c \<noteq> n)"
  by (auto simp: live_handles_def filter_empty_conv)

lemma quiet_clearTask:
  assumes "live_handles s n = []"
  shows "live_handles (clearTask m s) n = []"
    and "ticks_for n (posted (clearTask m s)) = ticks_for n (posted s)"
  using assms
  by (auto simp: live_handles_Nil clearTask_timers clearTask_posted set_delete ticks_for_append
      ticks_for_broadcast ticks_for_Nil split: option.splits)

lemma quiet_removeAllTasks:
  assumes "live_handles s n = []"
  shows "live_handles (removeAllTasks s) n = []"
    and "ticks_for n (posted (removeAllTasks s)) = ticks_for n (posted s)"
  using assms
  by (auto simp: live_handles_Nil removeAllTasks_def broadcast_def fold_clearInterval
      ticks_for_append ticks_for_broadcast)

lemma quiet_addTask:
  assumes "live_handles s n = []" "m \<noteq> n"
  shows "live_handles (addTask m iv rep s) n = []"
    and "ticks_for n (posted (addTask m iv rep s)) = ticks_for n (posted s)"
  using assms
  by (auto simp: live_handles_Nil addTask_timers addTask_other set_delete split: option.splits)

lemma quiet_tick:
  assumes "live_handles s n = []" "cl_taskName c \<noteq> n"
  shows "live_handles (timer_callback c now s) n = []"
    and "ticks_for n (posted (timer_callback c now s)) = ticks_for n (posted s)"
proof -
  let ?s1 = "s\<lparr>posted := posted s @
       map (\<lambda>k. (ports s ! k, TIMER_TICK (cl_taskName c) (now k))) [0 ..< length (ports s)]\<rparr>"
  have l: "live_handles ?s1 n = []" using assms(1) by (simp add: live_handles_def)
  have t: "ticks_for n (posted ?s1) = ticks_for n (posted s)"
    using assms(2) by (simp add: ticks_for_append ticks_for_other)
  show "live_handles (timer_callback c now s) n = []"
    using l quiet_clearTask(1)[OF l] by (simp add: timer_callback_def Let_def)
  show "ticks_for n (posted (timer_callback c now s)) = ticks_for n (posted s)"
    using t quiet_clearTask(2)[OF l] by (simp add: timer_callback_def Let_def)
qed

lemma quiet_step:
  assumes "live_handles s n = []" "\<not> is_add n e"
  shows "live_handles (step s e) n = [] \<and>
         ticks_for n (posted (step s e)) = ticks_for n (posted s)"
proof (cases e)
  case (Connect p)
  then show ?thesis using assms(1) by (simp add: onconnect_def live_handles_def)
next
  case (Message p req)
  show ?thesis
  proof (cases req)
    case (ADD_TASK m iv rep)
    then have "m \<noteq> n" using assms(2) Message by simp
    then show ?thesis
      using quiet_addTask[OF assms(1)] assms(1) by (simp add: Message ADD_TASK onmessage_def)
  next
    case (CLEAR_TASK m)
    then show ?thesis
      using quiet_clearTask[OF assms(1)] assms(1) by (simp add: Message onmessage_def)
  next
    case REMOVE_ALL
    then show ?thesis
      using quiet_removeAllTasks[OF assms(1)] assms(1) by (simp add: Message onmessage_def)
  next
    case (PING m)
    then show ?thesis
      using assms(1) by (simp add: Message onmessage_def live_handles_def ticks_for_def)
  next
    case (OTHER a)
    then show ?thesis using assms(1) by (simp add: Message onmessage_def)
  qed
next
  case (Fire i now)
  show ?thesis
  proof (cases "map_of (timers s) i")
    case None
    then show ?thesis using assms(1) by (simp add: Fire)
  next
    case (Some c)
    then have "(i, c) \<in> set (timers s)" by (rule map_of_SomeD)
    then have "cl_taskName c \<noteq> n" using assms(1) by (auto simp: live_handles_Nil)
    from quiet_tick[OF assms(1) this] show ?thesis by (simp add: Fire Some)
  qed
next
  case (PortError p)
  then show ?thesis using assms(1) by simp
qed

lemma quiet_foldl:
  "live_handles s n = [] \<Longrightarrow> list_all (\<lambda>e. \<not> is_add n e) es \<Longrightarrow>
   ticks_for n (posted (foldl step s es)) = ticks_for n (posted s)"
proof (induction es arbitrary: s)
  case Nil
  then show ?case by simp
next
  case (Cons e es)
  from Cons.prems have q: "live_handles (step s e) n = []"
    "ticks_for n (posted (step s e)) = ticks_for n (posted s)"
    using quiet_step[of s n e] by simp_all
  from Cons.IH[OF q(1)] Cons.prems(2) q(2) show ?case by simp
qed

text \<open>
  C2. Let a task be registered, after any sequence of worker events, with a falsy repeat
  flag. When its interval fires, the handler posts one \<open>TIMER_TICK\<close> for the name to
  every port and then one \<open>TASK_CLEARED\<close> for the name to every port, and nothing else:
  each port receives exactly the tick followed by the clearance. The name leaves the
  registry, no armed interval ticks for it any more, and no later sequence of events
  without an \<open>ADD_TASK\<close> for the name posts another tick for it.
\<close>

theorem one_shot_fires_once:
  assumes "map_of (tasks (run es)) taskName = Some t" and "\<not> truthy (canRepeat t)"
  shows
    "newly_posted (run es) (step (run es) (Fire (timerId t) now)) =
       map (\<lambda>k. (ports (run es) ! k, TIMER_TICK taskName (now k)))
         [0 ..< length (ports (run es))] @
       map (\<lambda>p. (p, TASK_CLEARED taskName)) (ports (run es)) \<and>
     (\<forall>k < length (ports (run es)).
        received (ports (run es) ! k)
          (newly_posted (run es) (step (run es) (Fire (timerId t) now)))
          = [TIMER_TICK taskName (now k), TASK_CLEARED taskName]) \<and>
     map_of (tasks (step (run es) (Fire (timerId t) now))) taskName = None \<and>
     live_handles (step (run es) (Fire (timerId t) now)) taskName = [] \<and>
     (list_all (\<lambda>e. \<not> is_add taskName e) es' \<longrightarrow>
        ticks_for taskName (posted (foldl step (step (run es) (Fire (timerId t) now)) es'))
          = ticks_for taskName (posted (step (run es) (Fire (timerId t) now))))"
proof -
  let ?s = "run es"
  let ?c = "\<lparr>cl_taskName = taskName, cl_canRepeat = canRepeat t, cl_delay = intervalTime t\<rparr>"
  let ?ticks = "map (\<lambda>k. (ports ?s ! k, TIMER_TICK taskName (now k))) [0 ..< length (ports ?s)]"
  let ?clears = "map (\<lambda>p. (p, TASK_CLEARED taskName)) (ports ?s)"
  let ?s1 = "?s\<lparr>posted := posted ?s @ ?ticks\<rparr>"
  let ?s' = "step ?s (Fire (timerId t) now)"
  have c: "consistent ?s" by (rule consistent_run)
  have d: "distinct (ports ?s)" using c by (simp add: consistent_def)
  have s': "?s' = clearTask taskName ?s1"
    using assms(2) by (simp add: armed_lookup[OF c assms(1)] timer_callback_def Let_def)
  have c': "consistent ?s'" using c by (rule consistent_step)
  have P: "newly_posted ?s ?s' = ?ticks @ ?clears"
    unfolding s' using assms(1) by (simp add: newly_posted_def clearTask_posted)
  have Q: "received (ports ?s ! k) (newly_posted ?s ?s')
             = [TIMER_TICK taskName (now k), TASK_CLEARED taskName]"
    if "k < length (ports ?s)" for k
    unfolding P using that d
    by (simp add: received_append received_broadcast
        received_ticks[where f = "\<lambda>k. TIMER_TICK taskName (now k)"])
  have T: "map_of (tasks ?s') taskName = None"
    unfolding s' by (simp add: clearTask_tasks delete_conv')
  have L: "live_handles ?s' taskName = []"
    unfolding live_handles_registry[OF c'] T by simp
  have N: "ticks_for taskName (posted (foldl step ?s' es')) = ticks_for taskName (posted ?s')"
    if "list_all (\<lambda>e. \<not> is_add taskName e) es'"
    using L that by (rule quiet_foldl)
  show ?thesis using P Q T L N by blast
qed

theorem one_shot_fires_once_witness:
  "map_of (tasks (run ex_events)) ''t'' = Some ex_task \<and>
   \<not> truthy (canRepeat ex_task) \<and>
   list_all (\<lambda>e. \<not> is_add ''t'' e) ex_later \<and>
   newly_posted (run ex_events) (step (run ex_events) (Fire (timerId ex_task) ex_now)) =
     [(10, TIMER_TICK ''t'' 1000), (20, TIMER_TICK ''t'' 1000),
      (10, TASK_CLEARED ''t''), (20, TASK_CLEARED ''t'')] \<and>
   received 20
     (newly_posted (run ex_events) (step (run ex_events) (Fire (timerId ex_task) ex_now))) =
     [TIMER_TICK ''t'' 1000, TASK_CLEARED ''t''] \<and>
   map_of (tasks (step (run ex_events) (Fire (timerId ex_task) ex_now))) ''t'' = None \<and>
   live_handles (step (run ex_events) (Fire (timerId ex_task) ex_now)) ''t'' = [] \<and>
   ticks_for ''t''
     (posted (foldl step (step (run ex_events) (Fire (timerId ex_task) ex_now)) ex_later)) =
     [(10, TIMER_TICK ''t'' 1000), (20, TIMER_TICK ''t'' 1000)]"
proof -
  have h1: "map_of (tasks (run ex_events)) ''t'' = Some ex_task"
    by (simp add: run_example)
  have h2: "\<not> truthy (canRepeat ex_task)"
    by (simp add: ex_task_def)
  have h3: "list_all (\<lambda>e. \<not> is_add ''t'' e) ex_later"
    by (simp add: ex_later_def)
  note th = one_shot_fires_once [OF h1 h2, of ex_now ex_later]
  define s' where "s' = step (run ex_events) (Fire (timerId ex_task) ex_now)"
  have p: "ports (run ex_events) = [10, 20]" by (simp add: run_example)
  have P: "newly_posted (run ex_events) s' =
     [(10, TIMER_TICK ''t'' 1000), (20, TIMER_TICK ''t'' 1000),
      (10, TASK_CLEARED ''t''), (20, TASK_CLEARED ''t'')]"
    using th unfolding s'_def [symmetric] p by (simp add: ex_now_def)
  have "\<forall>k < length (ports (run ex_events)).
      received (ports (run ex_events) ! k) (newly_posted (run ex_events) s') =
        [TIMER_TICK ''t'' (ex_now k), TASK_CLEARED ''t'']"
    using th unfolding s'_def [symmetric] by blast
  moreover have "1 < length (ports (run ex_events))" by (simp add: p)
  ultimately have "received (ports (run ex_events) ! 1) (newly_posted (run ex_events) s') =
     [TIMER_TICK ''t'' (ex_now 1), TASK_CLEARED ''t'']"
    by blast
  then have Q: "received 20 (newly_posted (run ex_events) s') =
     [TIMER_TICK ''t'' 1000, TASK_CLEARED ''t'']"
    by (simp add: p ex_now_def)
  have T: "map_of (tasks s') ''t'' = None" "live_handles s' ''t'' = []"
    using th unfolding s'_def [symmetric] by blast+
  have "ticks_for ''t'' (posted (foldl step s' ex_later)) = ticks_for ''t'' (posted s')"
    using th h3 unfolding s'_def [symmetric] by blast
  also have "posted s' = posted (run ex_events) @ newly_posted (run ex_events) s'"
    by (simp add: newly_posted_def run_example)
  also have "ticks_for ''t'' \<dots> = [(10, TIMER_TICK ''t'' 1000), (20, TIMER_TICK ''t'' 1000)]"
    unfolding P by (simp add: run_example ticks_for_def)
  finally have N: "ticks_for ''t'' (posted (foldl step s' ex_later)) =
     [(10, TIMER_TICK ''t'' 1000), (20, TIMER_TICK ''t'' 1000)]" .
  show ?thesis
    using h1 h2 h3 P Q T N unfolding s'_def by blast
qed

section \<open>The worker does not check the interval\<close>

text \<open>
  C3, as stated, fails: an \<open>ADD_TASK\<close> whose interval is zero is installed and armed.
\<close>

theorem zero_interval_is_installed:
  "\<not> spec_strictly_positive_finite (JNum (Finite 0)) \<and>
   map_of (tasks (run [Connect 10, Message 10 (ADD_TASK ''z'' (JNum (Finite 0)) (JBool True))]))
     ''z'' = Some \<lparr>timerId = 1, intervalTime = JNum (Finite 0), canRepeat = JBool True\<rparr> \<and>
   live_handles (run [Connect 10, Message 10 (ADD_TASK ''z'' (JNum (Finite 0)) (JBool True))])
     ''z'' = [1]"
  by (simp add: spec_strictly_positive_finite_def worker_eval)

text \<open>
  C3, amended. The worker does not look at the interval: processing \<open>ADD_TASK\<close> records
  the task under its name with the interval as received, whatever value that is, and arms
  an interval for it under the handle the registry records; after any sequence of events
  that handle is the one armed interval of the name.
\<close>

theorem add_task_installs_any_interval:
  "map_of (tasks (onmessage p (ADD_TASK taskName iv rep) s)) taskName
     = Some \<lparr>timerId = nextTimerId s, intervalTime = iv, canRepeat = rep\<rparr> \<and>
   (nextTimerId s, \<lparr>cl_taskName = taskName, cl_canRepeat = rep, cl_delay = iv\<rparr>)
     \<in> set (timers (onmessage p (ADD_TASK taskName iv rep) s)) \<and>
   live_handles (onmessage p (ADD_TASK taskName iv rep) (run es)) taskName
     = [nextTimerId (run es)]"
proof -
  have "consistent (addTask taskName iv rep (run es))"
    by (rule consistent_addTask) (rule consistent_run)
  then have "live_handles (addTask taskName iv rep (run es)) taskName = [nextTimerId (run es)]"
    by (simp add: live_handles_registry addTask_tasks update_conv')
  then show ?thesis
    by (simp add: onmessage_def addTask_tasks addTask_timers update_conv')
qed

section \<open>Validation in the proxy\<close>

text \<open>
  C4, as stated, fails: an empty task name is among the arguments the claim rejects, yet
  the call succeeds, stores the callback and sends \<open>ADD_TASK\<close>.
\<close>

theorem empty_name_is_accepted:
  "spec_invalid_argument [] (JNum (Finite 100)) (JFun 7) \<and>
   addTimerTask [] (JNum (Finite 100)) (JFun 7) None new_proxy =
     (None, \<lparr>callbacks = [([], 7)], isConnected = True,
             sent = [ADD_TASK [] (JNum (Finite 100)) (JBool True)], invoked = []\<rparr>)"
  by (simp add: spec_invalid_argument_def addTimerTask_def new_proxy_def bad_interval_def)

text \<open>
  C4, amended. On a connected proxy \<open>addTimerTask\<close> throws when the callback is not
  callable, and throws when the callback is callable and the interval is not of type
  number or is a number at most zero. The task name is not checked. For a callable
  callback and a positive interval it succeeds whatever the name, the empty string
  included: it stores the callback under the name, replacing a callback stored there, and
  sends \<open>ADD_TASK\<close> with the repeat flag (true when omitted).
\<close>

theorem addTimerTask_validation:
  assumes "isConnected p"
  shows
    "(typeof cb \<noteq> ''function'' \<longrightarrow>
        fst (addTimerTask taskName iv cb rep p) = Some CallbackError) \<and>
     (typeof cb = ''function'' \<and> bad_interval iv \<longrightarrow>
        fst (addTimerTask taskName iv cb rep p) = Some IntervalError) \<and>
     (cb = JFun f \<and> spec_positive_number iv \<longrightarrow>
        addTimerTask taskName iv cb rep p =
          (None,
           p\<lparr>callbacks := AList.update taskName f (callbacks p),
             sent := sent p @
               [ADD_TASK taskName iv (JBool (case rep of None \<Rightarrow> True | Some b \<Rightarrow> b))]\<rparr>) \<and>
        map_of (callbacks (snd (addTimerTask taskName iv cb rep p))) taskName = Some f)"
proof -
  have "\<not> bad_interval iv" if "spec_positive_number iv"
    using that
    by (auto simp: spec_positive_number_def bad_interval_def split: jsval.splits jsnum.splits)
  then show ?thesis
    using assms by (auto simp: addTimerTask_def update_conv')
qed

theorem addTimerTask_validation_witness:
  "isConnected new_proxy \<and>
   typeof (JStr ''cb'') \<noteq> ''function'' \<and>
   fst (addTimerTask ''t'' (JNum (Finite 100)) (JStr ''cb'') None new_proxy) = Some CallbackError \<and>
   typeof (JFun 7) = ''function'' \<and> bad_interval (JNum (Finite (- 5))) \<and>
   fst (addTimerTask ''t'' (JNum (Finite (- 5))) (JFun 7) None new_proxy) = Some IntervalError \<and>
   spec_positive_number (JNum (Finite 100)) \<and>
   map_of (callbacks (snd (addTimerTask [] (JNum (Finite 100)) (JFun 7) (Some False) new_proxy)))
     [] = Some 7"
proof -
  have c: "isConnected new_proxy" by (simp add: new_proxy_def)
  have h1: "typeof (JStr ''cb'') \<noteq> ''function''" by simp
  have h2: "typeof (JFun 7) = ''function''" "bad_interval (JNum (Finite (- 5)))"
    by (simp_all add: bad_interval_def)
  have h3: "spec_positive_number (JNum (Finite 100))"
    by (simp add: spec_positive_number_def)
  have a: "fst (addTimerTask ''t'' (JNum (Finite 100)) (JStr ''cb'') None new_proxy)
             = Some CallbackError"
    using addTimerTask_validation [OF c, of "JStr ''cb''" "''t''" "JNum (Finite 100)" None] h1
    by blast
  have b: "fst (addTimerTask ''t'' (JNum (Finite (- 5))) (JFun 7) None new_proxy)
             = Some IntervalError"
    using addTimerTask_validation [OF c, of "JFun 7" "''t''" "JNum (Finite (- 5))" None] h2
    by blast
  have d: "map_of (callbacks (snd (addTimerTask [] (JNum (Finite 100)) (JFun 7) (Some False)
             new_proxy))) [] = Some 7"
    using addTimerTask_validation
      [OF c, of "JFun 7" "[]" "JNum (Finite 100)" "Some False" 7] h3
    by blast
  show ?thesis using c h1 h2 h3 a b d by blast
qed

text \<open>
  C5. Whenever \<open>addTimerTask\<close> throws, which it does exactly when the proxy is not
  connected, the callback is not callable or the interval fails the check, the instance
  after the call is the instance before it (callback map and channel alike): no request
  was sent, so the worker that would receive the call's requests is unchanged too.
\<close>

theorem addTimerTask_throws_before_effects:
  "(fst (addTimerTask taskName iv cb rep p) \<noteq> None) =
     (\<not> isConnected p \<or> typeof cb \<noteq> ''function'' \<or> bad_interval iv) \<and>
   (fst (addTimerTask taskName iv cb rep p) \<noteq> None \<longrightarrow>
      snd (addTimerTask taskName iv cb rep p) = p \<and>
      new_requests p (snd (addTimerTask taskName iv cb rep p)) = [] \<and>
      deliver port (new_requests p (snd (addTimerTask taskName iv cb rep p))) w = w)"
  by (cases cb) (auto simp: addTimerTask_def new_requests_def deliver_def)

theorem addTimerTask_throws_before_effects_witness:
  "fst (addTimerTask ''u'' (JNum NegInfinity) (JFun 3) None
          (snd (addTimerTask ''t'' (JNum (Finite 100)) (JFun 7) None new_proxy))) \<noteq> None \<and>
   snd (addTimerTask ''u'' (JNum NegInfinity) (JFun 3) None
          (snd (addTimerTask ''t'' (JNum (Finite 100)) (JFun 7) None new_proxy)))
     = snd (addTimerTask ''t'' (JNum (Finite 100)) (JFun 7) None new_proxy) \<and>
   deliver 10
     (new_requests (snd (addTimerTask ''t'' (JNum (Finite 100)) (JFun 7) None new_proxy))
        (snd (addTimerTask ''u'' (JNum NegInfinity) (JFun 3) None
           (snd (addTimerTask ''t'' (JNum (Finite 100)) (JFun 7) None new_proxy)))))
     (run ex_events) = run ex_events"
proof -
  let ?p = "snd (addTimerTask ''t'' (JNum (Finite 100)) (JFun 7) None new_proxy)"
  have h: "fst (addTimerTask ''u'' (JNum NegInfinity) (JFun 3) None ?p) \<noteq> None"
    by (simp add: addTimerTask_def new_proxy_def bad_interval_def)
  with addTimerTask_throws_before_effects
    [of "''u''" "JNum NegInfinity" "JFun 3" None ?p 10 "run ex_events"]
  show ?thesis by blast
qed

section \<open>Removing all tasks\<close>

lemma removeAllTasks_fields:
  "tasks (removeAllTasks s) = []"
  "ports (removeAllTasks s) = ports s"
  "nextTimerId (removeAllTasks s) = nextTimerId s"
  "posted (removeAllTasks s) = posted s @ map (\<lambda>q. (q, ALL_TASKS_CLEARED)) (ports s)"
  by (simp_all add: removeAllTasks_def broadcast_def fold_clearInterval)

text \<open>
  C6. Processing \<open>REMOVE_ALL\<close>, after any sequence of worker events, leaves no armed
  interval and an empty registry, and posts \<open>ALL_TASKS_CLEARED\<close> once to each port and
  nothing else. A proxy handling \<open>ALL_TASKS_CLEARED\<close> empties its callback map whatever
  it held, so a proxy that handles what its port received reports no active task.
\<close>

theorem remove_all_clears_everything:
  "timers (onmessage p REMOVE_ALL (run es)) = [] \<and>
   tasks (onmessage p REMOVE_ALL (run es)) = [] \<and>
   newly_posted (run es) (onmessage p REMOVE_ALL (run es))
     = map (\<lambda>q. (q, ALL_TASKS_CLEARED)) (ports (run es)) \<and>
   distinct (ports (run es)) \<and>
   (\<forall>q \<in> set (ports (run es)).
      received q (newly_posted (run es) (onmessage p REMOVE_ALL (run es)))
        = [ALL_TASKS_CLEARED] \<and>
      getActiveTasks
        (fold handleWorkerMessage
           (received q (newly_posted (run es) (onmessage p REMOVE_ALL (run es)))) px) = []) \<and>
   callbacks (handleWorkerMessage ALL_TASKS_CLEARED px) = [] \<and>
   getActiveTasks (handleWorkerMessage ALL_TASKS_CLEARED px) = []"
proof -
  have c: "consistent (run es)" by (rule consistent_run)
  have d: "distinct (ports (run es))" using c by (simp add: consistent_def)
  have n: "newly_posted (run es) (removeAllTasks (run es))
             = map (\<lambda>q. (q, ALL_TASKS_CLEARED)) (ports (run es))"
    by (simp add: newly_posted_def removeAllTasks_fields)
  have g: "getActiveTasks (handleWorkerMessage ALL_TASKS_CLEARED px) = []"
    by (simp add: getActiveTasks_def handleWorkerMessage_def)
  have "received q (newly_posted (run es) (removeAllTasks (run es))) = [ALL_TASKS_CLEARED]"
    if "q \<in> set (ports (run es))" for q
    unfolding n using d that by (rule received_broadcast)
  then show ?thesis
    using d n g timers_removeAllTasks[OF c]
    by (simp add: onmessage_def removeAllTasks_fields handleWorkerMessage_def)
qed

theorem remove_all_clears_everything_witness:
  "20 \<in> set (ports (run ex_events)) \<and>
   received 20 (newly_posted (run ex_events) (onmessage 10 REMOVE_ALL (run ex_events)))
     = [ALL_TASKS_CLEARED] \<and>
   getActiveTasks
     (fold handleWorkerMessage
        (received 20 (newly_posted (run ex_events) (onmessage 10 REMOVE_ALL (run ex_events))))
        (snd (addTimerTask ''t'' (JNum (Finite 100)) (JFun 7) None new_proxy))) = []"
proof -
  have h: "20 \<in> set (ports (run ex_events))" by (simp add: run_example)
  with remove_all_clears_everything
    [where p = 10 and es = ex_events
       and px = "snd (addTimerTask ''t'' (JNum (Finite 100)) (JFun 7) None new_proxy)"]
  show ?thesis by blast
qed

section \<open>Clearing one task\<close>

text \<open>
  C7. Processing \<open>CLEAR_TASK\<close> for a name the registry does not hold changes nothing in
  the worker: nothing is posted and the registry is as before. For a name it holds, the
  handle recorded for it is no longer armed, the entry is removed, and \<open>TASK_CLEARED\<close>
  for the name is posted once to every port, nothing else.
\<close>

theorem clear_task_absent_or_present:
  "(map_of (tasks s) taskName = None \<longrightarrow> onmessage p (CLEAR_TASK taskName) s = s) \<and>
   (map_of (tasks s) taskName = Some t \<longrightarrow>
      timerId t \<notin> fst ` set (timers (onmessage p (CLEAR_TASK taskName) s)) \<and>
      timers (onmessage p (CLEAR_TASK taskName) s) = AList.delete (timerId t) (timers s) \<and>
      tasks (onmessage p (CLEAR_TASK taskName) s) = AList.delete taskName (tasks s) \<and>
      map_of (tasks (onmessage p (CLEAR_TASK taskName) s)) taskName = None \<and>
      posted (onmessage p (CLEAR_TASK taskName) s)
        = posted s @ map (\<lambda>q. (q, TASK_CLEARED taskName)) (ports s) \<and>
      ports (onmessage p (CLEAR_TASK taskName) s) = ports s)"
proof -
  have "clearTask taskName s = s" if "map_of (tasks s) taskName = None"
    using that by (simp add: clearTask_def)
  moreover have "timerId t \<notin> fst ` set (AList.delete (timerId t) (timers s))"
    by (rule delete_notin_dom)
  ultimately show ?thesis
    by (simp add: onmessage_def clearTask_tasks clearTask_timers clearTask_posted
        clearTask_other delete_conv')
qed

theorem clear_task_absent_or_present_witness:
  "map_of (tasks (run ex_events)) ''zz'' = None \<and>
   onmessage 20 (CLEAR_TASK ''zz'') (run ex_events) = run ex_events \<and>
   map_of (tasks (run ex_events)) ''t'' = Some ex_task \<and>
   timerId ex_task \<notin> fst ` set (timers (onmessage 20 (CLEAR_TASK ''t'') (run ex_events))) \<and>
   tasks (onmessage 20 (CLEAR_TASK ''t'') (run ex_events)) = [] \<and>
   posted (onmessage 20 (CLEAR_TASK ''t'') (run ex_events))
     = [(10, TASK_CLEARED ''t''), (20, TASK_CLEARED ''t'')]"
proof -
  have a: "map_of (tasks (run ex_events)) ''zz'' = None" by (simp add: run_example)
  have b: "map_of (tasks (run ex_events)) ''t'' = Some ex_task" by (simp add: run_example)
  have 1: "onmessage 20 (CLEAR_TASK ''zz'') (run ex_events) = run ex_events"
    using clear_task_absent_or_present
      [where s = "run ex_events" and taskName = "''zz''" and p = 20] a by blast
  note th = clear_task_absent_or_present
      [where s = "run ex_events" and taskName = "''t''" and t = ex_task and p = 20]
  have 2: "timerId ex_task \<notin> fst ` set (timers (onmessage 20 (CLEAR_TASK ''t'') (run ex_events)))"
    using th b by blast
  have "tasks (onmessage 20 (CLEAR_TASK ''t'') (run ex_events))
          = AList.delete ''t'' (tasks (run ex_events))"
    using th b by blast
  then have 3: "tasks (onmessage 20 (CLEAR_TASK ''t'') (run ex_events)) = []"
    by (simp add: run_example)
  have "posted (onmessage 20 (CLEAR_TASK ''t'') (run ex_events))
          = posted (run ex_events) @ map (\<lambda>q. (q, TASK_CLEARED ''t'')) (ports (run ex_events))"
    using th b by blast
  then have 4: "posted (onmessage 20 (CLEAR_TASK ''t'') (run ex_events))
          = [(10, TASK_CLEARED ''t''), (20, TASK_CLEARED ''t'')]"
    by (simp add: run_example)
  show ?thesis using a b 1 2 3 4 by blast
qed

section \<open>Dispatching a tick in the proxy\<close>

text \<open>
  C8. On \<open>TIMER_TICK\<close> for a name the proxy looks the name up in its callback map. A
  callback stored there is invoked once with the name and the timestamp, and nothing else
  of the instance changes; with no callback stored the instance is left as it was.
\<close>

theorem tick_dispatch:
  "(map_of (callbacks p) taskName = Some f \<longrightarrow>
      handleWorkerMessage (TIMER_TICK taskName ts) p
        = p\<lparr>invoked := invoked p @ [(f, taskName, ts)]\<rparr>) \<and>
   (\<not> hasTask taskName p \<longrightarrow> handleWorkerMessage (TIMER_TICK taskName ts) p = p)"
  by (simp add: handleWorkerMessage_def hasTask_def)

theorem tick_dispatch_witness:
  "map_of (callbacks (snd (addTimerTask ''t'' (JNum (Finite 100)) (JFun 7) None new_proxy)))
     ''t'' = Some 7 \<and>
   invoked (handleWorkerMessage (TIMER_TICK ''t'' 1000)
      (snd (addTimerTask ''t'' (JNum (Finite 100)) (JFun 7) None new_proxy)))
     = [(7, ''t'', 1000)] \<and>
   \<not> hasTask ''u'' (snd (addTimerTask ''t'' (JNum (Finite 100)) (JFun 7) None new_proxy)) \<and>
   handleWorkerMessage (TIMER_TICK ''u'' 1000)
      (snd (addTimerTask ''t'' (JNum (Finite 100)) (JFun 7) None new_proxy))
     = snd (addTimerTask ''t'' (JNum (Finite 100)) (JFun 7) None new_proxy)"
proof -
  let ?p = "snd (addTimerTask ''t'' (JNum (Finite 100)) (JFun 7) None new_proxy)"
  have p: "?p = \<lparr>callbacks = [(''t'', 7)], isConnected = True,
                  sent = [ADD_TASK ''t'' (JNum (Finite 100)) (JBool True)], invoked = []\<rparr>"
    by (simp add: addTimerTask_def new_proxy_def bad_interval_def)
  have a: "map_of (callbacks ?p) ''t'' = Some 7" by (simp add: p)
  have b: "\<not> hasTask ''u'' ?p" by (simp add: p hasTask_def)
  have "handleWorkerMessage (TIMER_TICK ''t'' 1000) ?p
          = ?p\<lparr>invoked := invoked ?p @ [(7, ''t'', 1000)]\<rparr>"
    using tick_dispatch [where p = ?p and taskName = "''t''" and f = 7 and ts = 1000] a by blast
  then have 1: "invoked (handleWorkerMessage (TIMER_TICK ''t'' 1000) ?p) = [(7, ''t'', 1000)]"
    by (simp add: p)
  have 2: "handleWorkerMessage (TIMER_TICK ''u'' 1000) ?p = ?p"
    using tick_dispatch [where p = ?p and taskName = "''u''" and ts = 1000] b by blast
  show ?thesis using a b 1 2 by blast
qed

section \<open>Ports are never removed\<close>

lemma ports_timer_callback: "ports (timer_callback c now s) = ports s"
  by (simp add: timer_callback_def Let_def clearTask_other)

lemma ports_step: "set (ports s) \<subseteq> set (ports (step s e))"
proof (cases e)
  case (Message p req)
  then show ?thesis
    by (cases req)
       (auto simp: onmessage_def addTask_other clearTask_other removeAllTasks_fields)
qed (auto simp: onconnect_def ports_timer_callback split: option.splits)

lemma ports_foldl: "set (ports s) \<subseteq> set (ports (foldl step s es))"
proof (induction es arbitrary: s)
  case Nil
  then show ?case by simp
next
  case (Cons e es)
  have "set (ports s) \<subseteq> set (ports (step s e))" by (rule ports_step)
  also have "\<dots> \<subseteq> set (ports (foldl step (step s e) es))" by (rule Cons.IH)
  finally show ?case by simp
qed

lemma posted_timer_callback:
  "posted (timer_callback c now s) =
     posted s @
     map (\<lambda>k. (ports s ! k, TIMER_TICK (cl_taskName c) (now k))) [0 ..< length (ports s)] @
     (if truthy (cl_canRepeat c) then []
      else case map_of (tasks s) (cl_taskName c) of
             None \<Rightarrow> []
           | Some t \<Rightarrow> map (\<lambda>q. (q, TASK_CLEARED (cl_taskName c))) (ports s))"
  by (simp add: timer_callback_def Let_def clearTask_posted split: option.splits)

lemma run_repeating:
  "run ex_repeating =
     \<lparr>tasks = [(''r'', \<lparr>timerId = 1, intervalTime = JNum (Finite 5), canRepeat = JBool True\<rparr>)],
      ports = [10, 20],
      timers = [(1, ex_timer)],
      nextTimerId = 2, posted = []\<rparr>"
  by (simp add: ex_repeating_def ex_timer_def worker_eval)

text \<open>
  C9, as stated, fails: after port 10 reports an error it is still in the port set, and
  the next broadcast is posted to it.
\<close>

theorem failed_port_is_still_served:
  "10 \<in> set (ports (run (ex_events @ [PortError 10]))) \<and>
   received 10 (posted (run (ex_events @ [PortError 10, Message 20 REMOVE_ALL])))
     = [ALL_TASKS_CLEARED]"
  by (simp add: ex_events_def worker_eval fold_clearInterval)

text \<open>
  C9, amended. The worker has no handler for a port's error: the event changes nothing in
  the worker, which keeps running with its registry, its armed intervals and all its ports
  as they were, the failing one included. No sequence of events removes a port from the
  port set, so a port that reported an error is still in it after any later events. Every
  broadcast is posted to every port of the set, in the set's order: the \<open>TIMER_TICK\<close> of
  a firing interval (followed, for a one-shot task, by its \<open>TASK_CLEARED\<close>), the
  \<open>ALL_TASKS_CLEARED\<close> of \<open>REMOVE_ALL\<close>, and the \<open>TASK_CLEARED\<close> of \<open>CLEAR_TASK\<close>
  for a registered name.
\<close>

theorem ports_are_never_dropped:
  "step s (PortError p) = s \<and>
   set (ports s) \<subseteq> set (ports (foldl step s es)) \<and>
   (p \<in> set (ports s) \<longrightarrow> p \<in> set (ports (foldl step (step s (PortError p)) es))) \<and>
   map fst (newly_posted s (broadcast ev s)) = ports s \<and>
   (map_of (timers s) i = Some c \<longrightarrow>
      newly_posted s (step s (Fire i now)) =
        map (\<lambda>k. (ports s ! k, TIMER_TICK (cl_taskName c) (now k))) [0 ..< length (ports s)] @
        (if truthy (cl_canRepeat c) then []
         else case map_of (tasks s) (cl_taskName c) of
                None \<Rightarrow> []
              | Some t \<Rightarrow> map (\<lambda>q. (q, TASK_CLEARED (cl_taskName c))) (ports s)) \<and>
      (\<forall>k < length (ports s).
         (ports s ! k, TIMER_TICK (cl_taskName c) (now k))
           \<in> set (newly_posted s (step s (Fire i now))))) \<and>
   newly_posted s (onmessage q REMOVE_ALL s)
     = map (\<lambda>r. (r, ALL_TASKS_CLEARED)) (ports s) \<and>
   (map_of (tasks s) taskName = Some t \<longrightarrow>
      newly_posted s (onmessage q (CLEAR_TASK taskName) s)
        = map (\<lambda>r. (r, TASK_CLEARED taskName)) (ports s))"
proof -
  have A: "set (ports s) \<subseteq> set (ports (foldl step s es))" by (rule ports_foldl)
  have B: "map fst (newly_posted s (broadcast ev s)) = ports s"
    by (simp add: newly_posted_def broadcast_def comp_def)
  have C: "newly_posted s (step s (Fire i now)) =
        map (\<lambda>k. (ports s ! k, TIMER_TICK (cl_taskName c) (now k))) [0 ..< length (ports s)] @
        (if truthy (cl_canRepeat c) then []
         else case map_of (tasks s) (cl_taskName c) of
                None \<Rightarrow> []
              | Some t \<Rightarrow> map (\<lambda>q. (q, TASK_CLEARED (cl_taskName c))) (ports s))"
    if "map_of (timers s) i = Some c"
    using that by (simp add: newly_posted_def posted_timer_callback)
  have D: "(ports s ! k, TIMER_TICK (cl_taskName c) (now k))
             \<in> set (newly_posted s (step s (Fire i now)))"
    if "map_of (timers s) i = Some c" "k < length (ports s)" for k
    unfolding C[OF that(1)] using that(2) by simp
  have E: "newly_posted s (onmessage q REMOVE_ALL s)
             = map (\<lambda>r. (r, ALL_TASKS_CLEARED)) (ports s)"
    by (simp add: newly_posted_def onmessage_def removeAllTasks_fields)
  have F: "newly_posted s (onmessage q (CLEAR_TASK taskName) s)
             = map (\<lambda>r. (r, TASK_CLEARED taskName)) (ports s)"
    if "map_of (tasks s) taskName = Some t"
    using that by (simp add: newly_posted_def onmessage_def clearTask_posted)
  have G: "step s (PortError p) = s" by simp
  show ?thesis
    unfolding G using A B C D E F by blast
qed

theorem ports_are_never_dropped_witness:
  "10 \<in> set (ports (run ex_repeating)) \<and>
   10 \<in> set (ports (foldl step (step (run ex_repeating) (PortError 10)) ex_later)) \<and>
   map_of (timers (run ex_repeating)) 1 = Some ex_timer \<and>
   newly_posted (run ex_repeating) (step (run ex_repeating) (Fire 1 ex_now)) =
     [(10, TIMER_TICK ''r'' 1000), (20, TIMER_TICK ''r'' 1000)] \<and>
   (10, TIMER_TICK ''r'' 1000)
     \<in> set (newly_posted (run ex_repeating) (step (run ex_repeating) (Fire 1 ex_now))) \<and>
   map_of (tasks (run ex_repeating)) ''r''
     = Some \<lparr>timerId = 1, intervalTime = JNum (Finite 5), canRepeat = JBool True\<rparr> \<and>
   newly_posted (run ex_repeating) (onmessage 20 (CLEAR_TASK ''r'') (run ex_repeating)) =
     [(10, TASK_CLEARED ''r''), (20, TASK_CLEARED ''r'')]"
proof -
  let ?s = "run ex_repeating"
  let ?t = "\<lparr>timerId = 1, intervalTime = JNum (Finite 5), canRepeat = JBool True\<rparr>"
  note th = ports_are_never_dropped
    [where s = ?s and p = 10 and es = ex_later and i = 1 and c = ex_timer and now = ex_now
       and q = 20 and taskName = "''r''" and t = ?t]
  have p: "ports ?s = [10, 20]" by (simp add: run_repeating)
  have h1: "10 \<in> set (ports ?s)" by (simp add: p)
  have h2: "map_of (timers ?s) 1 = Some ex_timer" by (simp add: run_repeating)
  have h3: "map_of (tasks ?s) ''r'' = Some ?t" by (simp add: run_repeating)
  have 1: "10 \<in> set (ports (foldl step (step ?s (PortError 10)) ex_later))"
    using th h1 by blast
  have "newly_posted ?s (step ?s (Fire 1 ex_now)) =
        map (\<lambda>k. (ports ?s ! k, TIMER_TICK (cl_taskName ex_timer) (ex_now k)))
          [0 ..< length (ports ?s)] @
        (if truthy (cl_canRepeat ex_timer) then []
         else case map_of (tasks ?s) (cl_taskName ex_timer) of
                None \<Rightarrow> []
              | Some t \<Rightarrow> map (\<lambda>q. (q, TASK_CLEARED (cl_taskName ex_timer))) (ports ?s))"
    using th h2 by blast
  then have 2: "newly_posted ?s (step ?s (Fire 1 ex_now)) =
     [(10, TIMER_TICK ''r'' 1000), (20, TIMER_TICK ''r'' 1000)]"
    unfolding p by (simp add: ex_timer_def ex_now_def)
  have "\<forall>k < length (ports ?s).
         (ports ?s ! k, TIMER_TICK (cl_taskName ex_timer) (ex_now k))
           \<in> set (newly_posted ?s (step ?s (Fire 1 ex_now)))"
    using th h2 by blast
  moreover have "0 < length (ports ?s)" by (simp add: p)
  ultimately have "(ports ?s ! 0, TIMER_TICK (cl_taskName ex_timer) (ex_now 0))
           \<in> set (newly_posted ?s (step ?s (Fire 1 ex_now)))"
    by blast
  then have 3: "(10, TIMER_TICK ''r'' 1000)
           \<in> set (newly_posted ?s (step ?s (Fire 1 ex_now)))"
    unfolding p by (simp add: ex_timer_def ex_now_def)
  have "newly_posted ?s (onmessage 20 (CLEAR_TASK ''r'') ?s)
          = map (\<lambda>r. (r, TASK_CLEARED ''r'')) (ports ?s)"
    using th h3 by blast
  then have 4: "newly_posted ?s (onmessage 20 (CLEAR_TASK ''r'') ?s) =
     [(10, TASK_CLEARED ''r''), (20, TASK_CLEARED ''r'')]"
    unfolding p by simp
  show ?thesis using h1 h2 h3 1 2 3 4 by blast
qed

end
